theory Spec2Isabelle
  imports Main "HOL-Library.Word" "HOL-Library.Signed_Division"
begin

section \<open>The schema-driven JSON decoder \<open>FromJsonObjectSchema\<close>\<close>

text \<open>
  The development embeds the class \<open>FromJsonObjectSchema\<close> of
  \<^verbatim>\<open>awkward-cpp/include/awkward/io/json.h\<close>. Every inline member function of the
  class becomes a HOL function over a record of the private members. The C++ types are
  kept: \<open>int64_t\<close> and \<open>uint64_t\<close> are 64-bit words (read with \<open>sint\<close> and \<open>unat\<close>),
  \<open>int8_t\<close> and \<open>uint8_t\<close> are 8-bit words, \<open>char\<close> is \<open>char\<close>. A \<open>double\<close> is only
  stored and copied by this class, never computed with, so it is carried as its 64-bit
  pattern. An access outside an array (undefined behaviour in C++) is the result \<open>None\<close>.
  Arithmetic on stored values is that of the 64-bit words. The loop variables of the two
  lookups are the integers read from the words: a loop stays within an array as long as
  it is defined, where none of its additions overflows.
\<close>

subsection \<open>Machine types\<close>

type_synonym int64 = "64 word"
type_synonym uint64 = "64 word"
type_synonym int8 = "8 word"
type_synonym uint8 = "8 word"
type_synonym float64 = "64 word"

text \<open>
  Modelled from the spec: the enumeration \<open>util::dtype\<close> is declared in
  \<^verbatim>\<open>awkward/util.h\<close>, which is not among the sources. The four element kinds the
  class names are constructors of their own; \<open>dtype_other n\<close> stands for every other
  tag of the enumeration.
\<close>

datatype dtype = dtype_int8 | dtype_uint8 | dtype_int64 | dtype_float64 | dtype_other nat

subsection \<open>Growable buffers\<close>

text \<open>
  Modelled from the spec: the class template \<open>GrowableBuffer\<close> is declared in
  \<^verbatim>\<open>awkward/GrowableBuffer.h\<close>, which is not among the sources. The spec describes it
  as an append-only contiguous store of one element kind with append-one, append-many,
  last-element peek, byte-size query and "concatenate into caller memory". The store is
  the list of its elements in the order of appending.
\<close>

type_synonym 'a GrowableBuffer = "'a list"

definition gb_append :: "'a GrowableBuffer \<Rightarrow> 'a \<Rightarrow> 'a GrowableBuffer" where
  "gb_append b x = b @ [x]"

text \<open>
  Modelled from the spec: append-many copies a run of \<open>n\<close> elements read through a
  pointer; \<open>vals\<close> is the memory readable there, and reading past it is undefined.
\<close>

definition gb_extend :: "'a GrowableBuffer \<Rightarrow> 'a list \<Rightarrow> nat \<Rightarrow> 'a GrowableBuffer option" where
  "gb_extend b vals n = (if n \<le> length vals then Some (b @ take n vals) else None)"

text \<open>
  Modelled from the spec: "last" returns the most recently appended element; an empty
  buffer has none.
\<close>

definition gb_last :: "'a GrowableBuffer \<Rightarrow> 'a option" where
  "gb_last b = (if b = [] then None else Some (last b))"

text \<open>
  Modelled from the spec: the byte size is the store length times the element width
  (\<open>width\<close> is \<open>sizeof\<close> of the element type).
\<close>

definition gb_nbytes :: "nat \<Rightarrow> 'a GrowableBuffer \<Rightarrow> nat" where
  "gb_nbytes width b = length b * width"

text \<open>
  The caller's memory is a region of bytes. An element of a 64-bit kind occupies eight
  bytes, least significant first (the layout of the platforms the library is built for).
\<close>

definition bytes_of_uint8 :: "uint8 \<Rightarrow> uint8 list" where
  "bytes_of_uint8 x = [x]"

definition bytes_of_64 :: "64 word \<Rightarrow> uint8 list" where
  "bytes_of_64 x = map (\<lambda>k. ucast (drop_bit (8 * k) x)) [0..<8]"

text \<open>
  Modelled from the spec: "concatenate" copies the entire contents of the buffer to the
  start of the caller's region and never resizes the region; a region that is too small
  would be written out of bounds.
\<close>

definition gb_concatenate ::
  "('a \<Rightarrow> uint8 list) \<Rightarrow> 'a GrowableBuffer \<Rightarrow> uint8 list \<Rightarrow> uint8 list option" where
  "gb_concatenate enc b dest =
     (let bs = concat (map enc b)
      in if length bs \<le> length dest then Some (bs @ drop (length bs) dest) else None)"

subsection \<open>The interpreter state\<close>

text \<open>
  The private members of the class, under their names without the trailing underscore;
  \<open>length_\<close> is the field \<open>length_field\<close>. The accessors \<open>current_stack_depth()\<close>,
  \<open>current_instruction()\<close> and \<open>length()\<close> return the member and are the record
  selectors.
\<close>

record state =
  instructions :: "int64 list"
  characters :: "char list"
  string_offsets :: "int64 list"
  output_names :: "string list"
  output_dtypes :: "dtype list"
  output_which :: "int64 list"
  buffers_uint8 :: "uint8 GrowableBuffer list"
  buffers_int64 :: "int64 GrowableBuffer list"
  buffers_float64 :: "float64 GrowableBuffer list"
  current_instruction :: int64
  instruction_stack :: "int64 list"
  current_stack_depth :: int64
  counters :: "int64 list"
  length_field :: int64

text \<open>\<open>v.data()[k]\<close>: a read through the raw pointer at a signed index.\<close>

definition data_at :: "'a list \<Rightarrow> int \<Rightarrow> 'a option" where
  "data_at v k = (if 0 \<le> k \<and> k < int (length v) then Some (v ! nat k) else None)"

text \<open>\<open>v[(size_t)i]\<close>: the index is the unsigned reading of the 64-bit value.\<close>

definition vec_at :: "'a list \<Rightarrow> int64 \<Rightarrow> 'a option" where
  "vec_at v i = (if unat i < length v then Some (v ! unat i) else None)"

subsection \<open>Instruction navigation\<close>

definition instruction :: "state \<Rightarrow> int64 option" where
  "instruction s = data_at (instructions s) (sint (current_instruction s) * 4)"

definition argument1 :: "state \<Rightarrow> int64 option" where
  "argument1 s = data_at (instructions s) (sint (current_instruction s) * 4 + 1)"

definition argument2 :: "state \<Rightarrow> int64 option" where
  "argument2 s = data_at (instructions s) (sint (current_instruction s) * 4 + 2)"

definition argument3 :: "state \<Rightarrow> int64 option" where
  "argument3 s = data_at (instructions s) (sint (current_instruction s) * 4 + 3)"

definition step_forward :: "state \<Rightarrow> state" where
  "step_forward s = s\<lparr>current_instruction := current_instruction s + 1\<rparr>"

definition step_backward :: "state \<Rightarrow> state" where
  "step_backward s = s\<lparr>current_instruction := current_instruction s - 1\<rparr>"

definition push_stack :: "int64 \<Rightarrow> state \<Rightarrow> state option" where
  "push_stack jump_to s =
     (let d = sint (current_stack_depth s)
      in if 0 \<le> d \<and> d < int (length (instruction_stack s))
         then Some (s\<lparr>instruction_stack := (instruction_stack s)[nat d := current_instruction s],
                       current_stack_depth := current_stack_depth s + 1,
                       current_instruction := jump_to\<rparr>)
         else None)"

definition pop_stack :: "state \<Rightarrow> state option" where
  "pop_stack s =
     (let depth = current_stack_depth s - 1
      in case data_at (instruction_stack s) (sint depth) of
           None \<Rightarrow> None
         | Some saved \<Rightarrow> Some (s\<lparr>current_stack_depth := depth, current_instruction := saved\<rparr>))"

text \<open>
  The invariant of the call stack: the depth counts the saved positions, between none
  and the capacity of the stack array.
\<close>

definition call_stack_invariant :: "state \<Rightarrow> bool" where
  "call_stack_invariant s =
     (0 \<le> sint (current_stack_depth s)
      \<and> sint (current_stack_depth s) \<le> int (length (instruction_stack s)))"

subsection \<open>Symbol resolution\<close>

text \<open>
  \<open>strncmp(str, mem, n) == 0\<close>. The first argument is a C string: the characters of
  \<open>str\<close> followed by the terminating NUL (a NUL inside \<open>str\<close> ends it earlier). The second
  is the memory of \<open>characters_\<close> from the symbol's first character on; it has no
  terminator of its own, and a read past its end is undefined. The comparison stops at
  the first differing pair, at a pair of NULs, or after \<open>n\<close> pairs.
\<close>

definition NUL :: char where
  "NUL = CHR 0x00"

fun strncmp_eq :: "string \<Rightarrow> char list \<Rightarrow> nat \<Rightarrow> bool option" where
  "strncmp_eq str mem 0 = Some True"
| "strncmp_eq str [] (Suc n) = None"
| "strncmp_eq [] (c2 # mem) (Suc n) = Some (c2 = NUL)"
| "strncmp_eq (c1 # str) (c2 # mem) (Suc n) =
     (if c1 \<noteq> c2 then Some False
      else if c1 = NUL then Some True
      else strncmp_eq str mem n)"

text \<open>\<open>&chars[start]\<close>: the memory of \<open>characters_\<close> from position \<open>start\<close> on.\<close>

definition chars_from :: "state \<Rightarrow> int64 \<Rightarrow> char list option" where
  "chars_from s start =
     (let k = sint start
      in if 0 \<le> k \<and> k \<le> int (length (characters s))
         then Some (drop (nat k) (characters s)) else None)"

text \<open>
  The test of both lookup loops on the symbol with index \<open>i\<close>:
  \<open>start = offsets[i]; stop = offsets[i + 1];
   strncmp(str, &chars[start], (size_t)(stop - start)) == 0\<close>.
\<close>

definition symbol_matches :: "state \<Rightarrow> string \<Rightarrow> int \<Rightarrow> bool option" where
  "symbol_matches s str i =
     (case data_at (string_offsets s) i of
        None \<Rightarrow> None
      | Some start \<Rightarrow>
          (case data_at (string_offsets s) (i + 1) of
             None \<Rightarrow> None
           | Some stop \<Rightarrow>
               (case chars_from s start of
                  None \<Rightarrow> None
                | Some mem \<Rightarrow> strncmp_eq str mem (unat (stop - start)))))"

text \<open>
  The loop of \<open>find_enum\<close>, \<open>for (i = stringsstart; i < argument3(); i++)\<close>, from the
  value \<open>i\<close> of the loop variable on.
\<close>

function find_enum_loop :: "state \<Rightarrow> string \<Rightarrow> int \<Rightarrow> int \<Rightarrow> int64 option" where
  "find_enum_loop s str stringsstart i =
     (case argument3 s of
        None \<Rightarrow> None
      | Some a3 \<Rightarrow>
          if i < sint a3
          then (case symbol_matches s str i of
                  None \<Rightarrow> None
                | Some True \<Rightarrow> Some (word_of_int (i - stringsstart))
                | Some False \<Rightarrow> find_enum_loop s str stringsstart (i + 1))
          else Some (- 1))"
  by pat_completeness auto
termination
  by (relation "measure (\<lambda>(s, str, stringsstart, i).
         case argument3 s of None \<Rightarrow> 0 | Some a3 \<Rightarrow> nat (sint a3 - i))") auto

definition find_enum :: "string \<Rightarrow> state \<Rightarrow> int64 option" where
  "find_enum str s =
     (case argument2 s of
        None \<Rightarrow> None
      | Some stringsstart \<Rightarrow> find_enum_loop s str (sint stringsstart) (sint stringsstart))"

text \<open>
  The loop of \<open>find_key\<close>,
  \<open>for (i = current_instruction_ + 1; i <= current_instruction_ + argument1(); i++)\<close>,
  from the value \<open>i\<close> of the loop variable on.
\<close>

function find_key_loop :: "state \<Rightarrow> string \<Rightarrow> int \<Rightarrow> int64 option" where
  "find_key_loop s str i =
     (case argument1 s of
        None \<Rightarrow> None
      | Some a1 \<Rightarrow>
          if i \<le> sint (current_instruction s) + sint a1
          then (case data_at (instructions s) (i * 4 + 1) of
                  None \<Rightarrow> None
                | Some stringi \<Rightarrow>
                    (case symbol_matches s str (sint stringi) of
                       None \<Rightarrow> None
                     | Some True \<Rightarrow> data_at (instructions s) (i * 4 + 2)
                     | Some False \<Rightarrow> find_key_loop s str (i + 1)))
          else Some (- 1))"
  by pat_completeness auto
termination
  by (relation "measure (\<lambda>(s, str, i).
         case argument1 s of None \<Rightarrow> 0
         | Some a1 \<Rightarrow> nat (sint (current_instruction s) + sint a1 + 1 - i))") auto

definition find_key :: "string \<Rightarrow> state \<Rightarrow> int64 option" where
  "find_key str s = find_key_loop s str (sint (current_instruction s) + 1)"

subsection \<open>Buffer writes\<close>

text \<open>
  \<open>*reinterpret_cast<uint8_t*>(&x)\<close> reads the byte of an \<open>int8_t\<close> as a \<open>uint8_t\<close>, and
  \<open>static_cast<int64_t>(x)\<close> converts a \<open>uint64_t\<close> to the \<open>int64_t\<close> with the same
  bits. Signed and unsigned values of one width are the same word, read by \<open>sint\<close> or by
  \<open>unat\<close>.
\<close>

definition reinterpret_uint8 :: "int8 \<Rightarrow> uint8" where
  "reinterpret_uint8 x = ucast x"

definition static_cast_int64 :: "uint64 \<Rightarrow> int64" where
  "static_cast_int64 x = ucast x"

definition write_int8 :: "int64 \<Rightarrow> int8 \<Rightarrow> state \<Rightarrow> state option" where
  "write_int8 index x s =
     (case vec_at (buffers_uint8 s) index of
        None \<Rightarrow> None
      | Some b \<Rightarrow> Some (s\<lparr>buffers_uint8 :=
                            (buffers_uint8 s)[unat index := gb_append b (reinterpret_uint8 x)]\<rparr>))"

definition write_uint8 :: "int64 \<Rightarrow> uint8 \<Rightarrow> state \<Rightarrow> state option" where
  "write_uint8 index x s =
     (case vec_at (buffers_uint8 s) index of
        None \<Rightarrow> None
      | Some b \<Rightarrow> Some (s\<lparr>buffers_uint8 := (buffers_uint8 s)[unat index := gb_append b x]\<rparr>))"

definition write_many_uint8 :: "int64 \<Rightarrow> int64 \<Rightarrow> uint8 list \<Rightarrow> state \<Rightarrow> state option" where
  "write_many_uint8 index num_items vals s =
     (case vec_at (buffers_uint8 s) index of
        None \<Rightarrow> None
      | Some b \<Rightarrow>
          (case gb_extend b vals (unat num_items) of
             None \<Rightarrow> None
           | Some b' \<Rightarrow> Some (s\<lparr>buffers_uint8 := (buffers_uint8 s)[unat index := b']\<rparr>)))"

definition write_int64 :: "int64 \<Rightarrow> int64 \<Rightarrow> state \<Rightarrow> state option" where
  "write_int64 index x s =
     (case vec_at (buffers_int64 s) index of
        None \<Rightarrow> None
      | Some b \<Rightarrow> Some (s\<lparr>buffers_int64 := (buffers_int64 s)[unat index := gb_append b x]\<rparr>))"

definition write_uint64 :: "int64 \<Rightarrow> uint64 \<Rightarrow> state \<Rightarrow> state option" where
  "write_uint64 index x s =
     (case vec_at (buffers_int64 s) index of
        None \<Rightarrow> None
      | Some b \<Rightarrow> Some (s\<lparr>buffers_int64 :=
                            (buffers_int64 s)[unat index := gb_append b (static_cast_int64 x)]\<rparr>))"

definition write_add_int64 :: "int64 \<Rightarrow> int64 \<Rightarrow> state \<Rightarrow> state option" where
  "write_add_int64 index x s =
     (case vec_at (buffers_int64 s) index of
        None \<Rightarrow> None
      | Some b \<Rightarrow>
          (case gb_last b of
             None \<Rightarrow> None
           | Some v \<Rightarrow> Some (s\<lparr>buffers_int64 :=
                                 (buffers_int64 s)[unat index := gb_append b (v + x)]\<rparr>)))"

definition write_float64 :: "int64 \<Rightarrow> float64 \<Rightarrow> state \<Rightarrow> state option" where
  "write_float64 index x s =
     (case vec_at (buffers_float64 s) index of
        None \<Rightarrow> None
      | Some b \<Rightarrow> Some (s\<lparr>buffers_float64 := (buffers_float64 s)[unat index := gb_append b x]\<rparr>))"

subsection \<open>Counters and length\<close>

text \<open>\<open>return counters_[(size_t)index]++\<close>: the value before the increment is returned.\<close>

definition get_and_increment :: "int64 \<Rightarrow> state \<Rightarrow> (int64 \<times> state) option" where
  "get_and_increment index s =
     (case vec_at (counters s) index of
        None \<Rightarrow> None
      | Some c \<Rightarrow> Some (c, s\<lparr>counters := (counters s)[unat index := c + 1]\<rparr>))"

definition add_to_length :: "int64 \<Rightarrow> state \<Rightarrow> state" where
  "add_to_length n s = s\<lparr>length_field := length_field s + n\<rparr>"

subsection \<open>Output extraction\<close>

definition num_outputs :: "state \<Rightarrow> int64" where
  "num_outputs s = word_of_nat (length (output_names s))"

definition output_name :: "int64 \<Rightarrow> state \<Rightarrow> string option" where
  "output_name i s = vec_at (output_names s) i"

definition output_dtype :: "int64 \<Rightarrow> state \<Rightarrow> string option" where
  "output_dtype i s =
     (case vec_at (output_dtypes s) i of
        None \<Rightarrow> None
      | Some dtype_int8 \<Rightarrow> Some ''int8''
      | Some dtype_uint8 \<Rightarrow> Some ''uint8''
      | Some dtype_int64 \<Rightarrow> Some ''int64''
      | Some dtype_float64 \<Rightarrow> Some ''float64''
      | Some (dtype_other t) \<Rightarrow> Some ''unknown'')"

text \<open>\<open>bufs[(size_t)output_which_[(size_t)i]]\<close>: the buffer bound to output \<open>i\<close>.\<close>

definition bound_buffer :: "'a list \<Rightarrow> int64 \<Rightarrow> state \<Rightarrow> 'a option" where
  "bound_buffer bufs i s =
     (case vec_at (output_which s) i of
        None \<Rightarrow> None
      | Some which \<Rightarrow> vec_at bufs which)"

text \<open>
  \<open>(int64_t)b.nbytes()\<close> converts the byte size to 64 bits, and the division of
  \<open>int64_t\<close> values truncates towards zero.
\<close>

definition nbytes_int64 :: "nat \<Rightarrow> 'a GrowableBuffer \<Rightarrow> int64" where
  "nbytes_int64 width b = word_of_nat (gb_nbytes width b)"

definition int64_div :: "int64 \<Rightarrow> int64 \<Rightarrow> int64" where
  "int64_div a b = word_of_int (sint a sdiv sint b)"

definition output_num_items :: "int64 \<Rightarrow> state \<Rightarrow> int64 option" where
  "output_num_items i s =
     (case vec_at (output_dtypes s) i of
        None \<Rightarrow> None
      | Some dtype_int8 \<Rightarrow>
          (case bound_buffer (buffers_uint8 s) i s of
             None \<Rightarrow> None | Some b \<Rightarrow> Some (nbytes_int64 1 b))
      | Some dtype_uint8 \<Rightarrow>
          (case bound_buffer (buffers_uint8 s) i s of
             None \<Rightarrow> None | Some b \<Rightarrow> Some (nbytes_int64 1 b))
      | Some dtype_int64 \<Rightarrow>
          (case bound_buffer (buffers_int64 s) i s of
             None \<Rightarrow> None | Some b \<Rightarrow> Some (int64_div (nbytes_int64 8 b) 8))
      | Some dtype_float64 \<Rightarrow>
          (case bound_buffer (buffers_float64 s) i s of
             None \<Rightarrow> None | Some b \<Rightarrow> Some (int64_div (nbytes_int64 8 b) 8))
      | Some (dtype_other t) \<Rightarrow> Some (- 1))"

text \<open>
  \<open>output_fill\<close> is a \<open>const\<close> member: it returns no value and changes no member. Its
  effect is on the caller's memory behind \<open>external_pointer\<close>; the function returns the
  contents of that memory after the call.
\<close>

definition output_fill :: "int64 \<Rightarrow> uint8 list \<Rightarrow> state \<Rightarrow> uint8 list option" where
  "output_fill i external s =
     (case vec_at (output_dtypes s) i of
        None \<Rightarrow> None
      | Some dtype_int8 \<Rightarrow>
          (case bound_buffer (buffers_uint8 s) i s of
             None \<Rightarrow> None | Some b \<Rightarrow> gb_concatenate bytes_of_uint8 b external)
      | Some dtype_uint8 \<Rightarrow>
          (case bound_buffer (buffers_uint8 s) i s of
             None \<Rightarrow> None | Some b \<Rightarrow> gb_concatenate bytes_of_uint8 b external)
      | Some dtype_int64 \<Rightarrow>
          (case bound_buffer (buffers_int64 s) i s of
             None \<Rightarrow> None | Some b \<Rightarrow> gb_concatenate bytes_of_64 b external)
      | Some dtype_float64 \<Rightarrow>
          (case bound_buffer (buffers_float64 s) i s of
             None \<Rightarrow> None | Some b \<Rightarrow> gb_concatenate bytes_of_64 b external)
      | Some (dtype_other t) \<Rightarrow> Some external)"

subsection \<open>The primitives as calls\<close>

text \<open>
  One constructor for every member function that the header defines, with its
  arguments, so that a statement can range over all primitives. \<open>call\<close> runs a primitive
  in a state and a caller's memory region and returns the value of the call, the state
  and the region after it. The constructor of the class and \<open>debug()\<close> are only
  declared in the header and are not part of the model.
\<close>

datatype primitive =
    Current_stack_depth
  | Current_instruction
  | Instruction
  | Argument1
  | Argument2
  | Argument3
  | Step_forward
  | Step_backward
  | Push_stack int64
  | Pop_stack
  | Find_enum string
  | Find_key string
  | Write_int8 int64 int8
  | Write_uint8 int64 uint8
  | Write_many_uint8 int64 int64 "uint8 list"
  | Write_int64 int64 int64
  | Write_uint64 int64 uint64
  | Write_add_int64 int64 int64
  | Write_float64 int64 float64
  | Get_and_increment int64
  | Length
  | Add_to_length int64
  | Num_outputs
  | Output_name int64
  | Output_dtype int64
  | Output_num_items int64
  | Output_fill int64

datatype retval = Void | Int64 int64 | Str string

type_synonym outcome = "retval \<times> state \<times> uint8 list"

definition returning :: "state \<Rightarrow> uint8 list \<Rightarrow> int64 option \<Rightarrow> outcome option" where
  "returning s ext r = map_option (\<lambda>v. (Int64 v, s, ext)) r"

definition returning_str :: "state \<Rightarrow> uint8 list \<Rightarrow> string option \<Rightarrow> outcome option" where
  "returning_str s ext r = map_option (\<lambda>v. (Str v, s, ext)) r"

definition updating :: "uint8 list \<Rightarrow> state option \<Rightarrow> outcome option" where
  "updating ext r = map_option (\<lambda>s'. (Void, s', ext)) r"

fun call :: "primitive \<Rightarrow> state \<Rightarrow> uint8 list \<Rightarrow> outcome option" where
  "call Current_stack_depth s ext = Some (Int64 (current_stack_depth s), s, ext)"
| "call Current_instruction s ext = Some (Int64 (current_instruction s), s, ext)"
| "call Instruction s ext = returning s ext (instruction s)"
| "call Argument1 s ext = returning s ext (argument1 s)"
| "call Argument2 s ext = returning s ext (argument2 s)"
| "call Argument3 s ext = returning s ext (argument3 s)"
| "call Step_forward s ext = Some (Void, step_forward s, ext)"
| "call Step_backward s ext = Some (Void, step_backward s, ext)"
| "call (Push_stack jump_to) s ext = updating ext (push_stack jump_to s)"
| "call Pop_stack s ext = updating ext (pop_stack s)"
| "call (Find_enum str) s ext = returning s ext (find_enum str s)"
| "call (Find_key str) s ext = returning s ext (find_key str s)"
| "call (Write_int8 index x) s ext = updating ext (write_int8 index x s)"
| "call (Write_uint8 index x) s ext = updating ext (write_uint8 index x s)"
| "call (Write_many_uint8 index num_items vals) s ext =
     updating ext (write_many_uint8 index num_items vals s)"
| "call (Write_int64 index x) s ext = updating ext (write_int64 index x s)"
| "call (Write_uint64 index x) s ext = updating ext (write_uint64 index x s)"
| "call (Write_add_int64 index x) s ext = updating ext (write_add_int64 index x s)"
| "call (Write_float64 index x) s ext = updating ext (write_float64 index x s)"
| "call (Get_and_increment index) s ext =
     map_option (\<lambda>(v, s'). (Int64 v, s', ext)) (get_and_increment index s)"
| "call Length s ext = Some (Int64 (length_field s), s, ext)"
| "call (Add_to_length n) s ext = Some (Void, add_to_length n s, ext)"
| "call Num_outputs s ext = Some (Int64 (num_outputs s), s, ext)"
| "call (Output_name i) s ext = returning_str s ext (output_name i s)"
| "call (Output_dtype i) s ext = returning_str s ext (output_dtype i s)"
| "call (Output_num_items i) s ext = returning s ext (output_num_items i s)"
| "call (Output_fill i) s ext = map_option (\<lambda>ext'. (Void, s, ext')) (output_fill i ext s)"

text \<open>The primitives that move the current position: the two steps, push and pop.\<close>

fun is_navigation :: "primitive \<Rightarrow> bool" where
  "is_navigation Step_forward = True"
| "is_navigation Step_backward = True"
| "is_navigation (Push_stack jump_to) = True"
| "is_navigation Pop_stack = True"
| "is_navigation p = False"

subsection \<open>A small program\<close>

text \<open>
  A loaded interpreter for the examples. The symbol table holds the symbols \<open>A\<close>, \<open>AB\<close>,
  \<open>x\<close> and \<open>xy\<close>. Instruction 0 resolves an enumeration over the symbols \<open>[0, 2)\<close>.
  Instruction 1 opens a record of two fields, whose key entries follow it: field \<open>x\<close>
  (symbol 2) with target 5 and field \<open>xy\<close> (symbol 3) with target 8. Five outputs are
  declared, one of each named kind and one of another kind, each bound to buffer 0 of
  its store. The stack has capacity two, and there are two counters.
\<close>

definition demo :: state where
  "demo = \<lparr>instructions = [7, 0, 0, 2,  11, 2, 0, 0,  12, 2, 5, 0,  12, 3, 8, 0],
           characters = ''AABxxy'',
           string_offsets = [0, 1, 3, 4, 6],
           output_names = [''a'', ''b'', ''c'', ''d'', ''e''],
           output_dtypes = [dtype_int8, dtype_uint8, dtype_int64, dtype_float64, dtype_other 0],
           output_which = [0, 0, 0, 0, 0],
           buffers_uint8 = [[1, 255]],
           buffers_int64 = [[0, 3]],
           buffers_float64 = [[4612811918334230528]],
           current_instruction = 0,
           instruction_stack = [0, 0],
           current_stack_depth = 0,
           counters = [0, 0],
           length_field = 0\<rparr>"

text \<open>
  The same program with two buffers in each store, of different sizes, and with outputs
  bound to them crosswise: the int8, int64 and float64 outputs to buffer 1 of their
  stores and the uint8 output to buffer 0.
\<close>

definition columns :: state where
  "columns = demo\<lparr>output_which := [1, 0, 1, 1, 0],
                    buffers_uint8 := [[1, 255], [7, 8, 9, 10]],
                    buffers_int64 := [[0, 3], [0, 2, 4]],
                    buffers_float64 := [[4612811918334230528],
                                        [4612811918334230528, 4616471093031469056]]\<rparr>"

subsection \<open>Successive calls\<close>

text \<open>
  \<open>n\<close> calls of \<open>get_and_increment\<close> for one index, one after the other, with the list
  of the values they return.
\<close>

fun get_and_increment_times :: "nat \<Rightarrow> int64 \<Rightarrow> state \<Rightarrow> (int64 list \<times> state) option" where
  "get_and_increment_times 0 index s = Some ([], s)"
| "get_and_increment_times (Suc n) index s =
     (case get_and_increment index s of
        None \<Rightarrow> None
      | Some (v, s') \<Rightarrow>
          (case get_and_increment_times n index s' of
             None \<Rightarrow> None
           | Some (vs, s'') \<Rightarrow> Some (v # vs, s'')))"

subsection \<open>Reading the symbol table\<close>

text \<open>
  The vocabulary of the statements about the lookups. Symbol \<open>i\<close> of the table is the
  text that \<open>offsets[i]\<close> and \<open>offsets[i + 1]\<close> delimit in \<open>characters_\<close>; it exists when
  both offsets are entries of the offset array and \<open>0 \<le> offsets[i] \<le> offsets[i + 1]\<close>
  lies within the characters.
\<close>

definition symbol_text :: "state \<Rightarrow> int \<Rightarrow> string option" where
  "symbol_text s i =
     (case data_at (string_offsets s) i of
        None \<Rightarrow> None
      | Some start \<Rightarrow>
          (case data_at (string_offsets s) (i + 1) of
             None \<Rightarrow> None
           | Some stop \<Rightarrow>
               if 0 \<le> sint start \<and> sint start \<le> sint stop
                  \<and> sint stop \<le> int (length (characters s))
               then Some (take (nat (sint stop - sint start))
                            (drop (nat (sint start)) (characters s)))
               else None))"

text \<open>\<open>str\<close> starts with \<open>t\<close>: \<open>t\<close> is a prefix of \<open>str\<close>, possibly all of it.\<close>

definition starts_with :: "string \<Rightarrow> string \<Rightarrow> bool" where
  "starts_with str t = (take (length t) str = t)"

text \<open>
  The instruction at position \<open>j\<close> as a key entry: the text of the symbol in its second
  slot, and the jump target in its third slot.
\<close>

definition entry_text :: "state \<Rightarrow> int \<Rightarrow> string option" where
  "entry_text s j =
     (case data_at (instructions s) (j * 4 + 1) of
        None \<Rightarrow> None
      | Some stringi \<Rightarrow> symbol_text s (sint stringi))"

definition entry_target :: "state \<Rightarrow> int \<Rightarrow> int64 option" where
  "entry_target s j = data_at (instructions s) (j * 4 + 2)"

text \<open>
  The answer of a lookup from the candidates that pass its test, in scanning order: the
  first one decides, and \<open>-1\<close> is returned when there is none.
\<close>

definition first_offset :: "int \<Rightarrow> int list \<Rightarrow> int64" where
  "first_offset base js = (case js of [] \<Rightarrow> - 1 | j # rest \<Rightarrow> word_of_int (j - base))"

definition first_target :: "state \<Rightarrow> int list \<Rightarrow> int64" where
  "first_target s js = (case js of [] \<Rightarrow> - 1 | j # rest \<Rightarrow> the (entry_target s j))"

section \<open>Properties\<close>

subsection \<open>Auxiliary facts\<close>

lemma vec_at_update_same:
  "vec_at v i = Some b \<Longrightarrow> vec_at (v[unat i := b']) i = Some b'"
  by (simp add: vec_at_def split: if_splits)

lemma sint_add_no_overflow:
  fixes v x :: int64
  assumes "- (2 ^ 63) \<le> sint v + sint x" and "sint v + sint x < 2 ^ 63"
  shows "sint (v + x) = sint v + sint x"
  using assms by (simp add: sint_word_ariths signed_take_bit_int_eq_self)

lemma sint_word_of_int_64:
  assumes "- (2 ^ 63) \<le> k" and "k < 2 ^ 63"
  shows "sint (word_of_int k :: int64) = k"
proof -
  have "signed_take_bit 63 k = k"
    using assms by (rule signed_take_bit_int_eq_self)
  then show ?thesis
    by (simp add: sint_sbintrunc')
qed

lemma sint_word_of_nat_64:
  assumes "n < 2 ^ 63"
  shows "sint (word_of_nat n :: int64) = int n"
proof -
  have "int n < 2 ^ 63"
    using assms by (metis of_nat_less_iff of_nat_numeral of_nat_power)
  then have "sint (word_of_int (int n) :: int64) = int n"
    by (intro sint_word_of_int_64) simp_all
  then show ?thesis
    by simp
qed

lemma sint_int64_div_8:
  assumes "n < 2 ^ 63"
  shows "sint (int64_div (word_of_nat n) 8) = int n div 8"
proof -
  have n: "int n < 2 ^ 63"
    using assms by (metis of_nat_less_iff of_nat_numeral of_nat_power)
  have q: "sint (word_of_nat n :: int64) sdiv sint (8 :: int64) = int n div 8"
    by (simp add: sint_word_of_nat_64 [OF assms] signed_divide_int_def sgn_if)
  have "- (2 ^ 63) \<le> int n div 8" and "int n div 8 < 2 ^ 63"
    using n by simp_all
  then have "sint (word_of_int (int n div 8) :: int64) = int n div 8"
    by (rule sint_word_of_int_64)
  then show ?thesis
    unfolding int64_div_def q .
qed

lemma get_and_increment_Some:
  assumes "vec_at (counters s) i = Some c"
  shows "get_and_increment i s = Some (c, s\<lparr>counters := (counters s)[unat i := c + 1]\<rparr>)"
  using assms by (simp add: get_and_increment_def)

lemma get_and_increment_times_from:
  assumes "vec_at (counters s) i = Some c"
  shows "\<exists>s'. get_and_increment_times n i s = Some (map (\<lambda>k. c + word_of_nat k) [0..<n], s')"
  using assms
proof (induction n arbitrary: s c)
  case 0
  then show ?case by simp
next
  case (Suc n)
  let ?s1 = "s\<lparr>counters := (counters s)[unat i := c + 1]\<rparr>"
  have first: "get_and_increment i s = Some (c, ?s1)"
    using Suc.prems by (rule get_and_increment_Some)
  have "vec_at (counters ?s1) i = Some (c + 1)"
    using Suc.prems by (simp add: vec_at_update_same)
  from Suc.IH [OF this] obtain s' where
    rest: "get_and_increment_times n i ?s1 = Some (map (\<lambda>k. c + 1 + word_of_nat k) [0..<n], s')"
    by blast
  have "map (\<lambda>k. c + word_of_nat k) [0..<Suc n]
      = c # map (\<lambda>k. c + 1 + word_of_nat k) [0..<n]"
    by (simp add: map_upt_Suc add.assoc del: upt_Suc)
  then show ?case
    using first rest by (simp del: upt_Suc)
qed

lemma unat_reinterpret_uint8:
  "int (unat (reinterpret_uint8 x)) = sint x mod 256"
proof -
  have "uint x = take_bit 8 (sint x)"
    by (simp add: uint_sint)
  then show ?thesis
    by (simp add: reinterpret_uint8_def take_bit_eq_mod)
qed

lemma sint_static_cast_int64:
  "sint (static_cast_int64 u) mod 2 ^ 64 = int (unat u)"
proof -
  have "uint u = take_bit 64 (sint u)"
    by (simp add: uint_sint)
  then show ?thesis
    by (simp add: static_cast_int64_def take_bit_eq_mod)
qed

lemma write_frame:
  "write_int8 i x8 s = Some s' \<Longrightarrow>
     current_instruction s' = current_instruction s
     \<and> current_stack_depth s' = current_stack_depth s \<and> length_field s' = length_field s"
  "write_uint8 i y8 s = Some s' \<Longrightarrow>
     current_instruction s' = current_instruction s
     \<and> current_stack_depth s' = current_stack_depth s \<and> length_field s' = length_field s"
  "write_many_uint8 i m vals s = Some s' \<Longrightarrow>
     current_instruction s' = current_instruction s
     \<and> current_stack_depth s' = current_stack_depth s \<and> length_field s' = length_field s"
  "write_int64 i x s = Some s' \<Longrightarrow>
     current_instruction s' = current_instruction s
     \<and> current_stack_depth s' = current_stack_depth s \<and> length_field s' = length_field s"
  "write_uint64 i u s = Some s' \<Longrightarrow>
     current_instruction s' = current_instruction s
     \<and> current_stack_depth s' = current_stack_depth s \<and> length_field s' = length_field s"
  "write_add_int64 i x s = Some s' \<Longrightarrow>
     current_instruction s' = current_instruction s
     \<and> current_stack_depth s' = current_stack_depth s \<and> length_field s' = length_field s"
  "write_float64 i f s = Some s' \<Longrightarrow>
     current_instruction s' = current_instruction s
     \<and> current_stack_depth s' = current_stack_depth s \<and> length_field s' = length_field s"
  by (auto simp add: write_int8_def write_uint8_def write_many_uint8_def write_int64_def
      write_uint64_def write_add_int64_def write_float64_def split: option.splits)

lemma get_and_increment_frame:
  "get_and_increment i s = Some (v, s') \<Longrightarrow>
     current_instruction s' = current_instruction s
     \<and> current_stack_depth s' = current_stack_depth s \<and> length_field s' = length_field s"
  by (auto simp add: get_and_increment_def split: option.splits)

lemma step_length:
  "length_field (step_forward s) = length_field s"
  "length_field (step_backward s) = length_field s"
  by (simp_all add: step_forward_def step_backward_def)

lemma stack_length:
  "push_stack t s = Some s' \<Longrightarrow> length_field s' = length_field s"
  "pop_stack s = Some s' \<Longrightarrow> length_field s' = length_field s"
  by (auto simp add: push_stack_def pop_stack_def Let_def split: option.splits if_splits)

lemma add_to_length_position:
  "current_instruction (add_to_length n s) = current_instruction s"
  "current_stack_depth (add_to_length n s) = current_stack_depth s"
  by (simp_all add: add_to_length_def)

lemma strncmp_eq_starts_with:
  assumes "n \<le> length mem" and "NUL \<notin> set (take n mem)"
  shows "strncmp_eq str mem n = Some (starts_with str (take n mem))"
  using assms
proof (induction str mem n rule: strncmp_eq.induct)
  case (1 str mem)
  then show ?case by (simp add: starts_with_def)
next
  case (2 str n)
  then show ?case by simp
next
  case (3 c2 mem n)
  then show ?case by (auto simp add: starts_with_def)
next
  case (4 c1 str c2 mem n)
  then show ?case by (auto simp add: starts_with_def)
qed

lemma unat_diff_of_ordered:
  fixes a b :: int64
  assumes "0 \<le> sint a" and "sint a \<le> sint b"
  shows "unat (b - a) = nat (sint b - sint a)"
proof -
  have upper: "sint b - sint a < 2 ^ 63"
    using assms sint_lt [of b] by simp
  have lower: "- (2 ^ 63) \<le> sint b - sint a"
    using assms by simp
  have "signed_take_bit 63 (sint b - sint a) = sint b - sint a"
    using lower upper by (rule signed_take_bit_int_eq_self)
  then have diff: "sint (b - a) = sint b - sint a"
    by (simp add: sint_word_diff)
  have "0 \<le> sint b - sint a" and "sint b - sint a < 2 ^ 64"
    using assms upper by simp_all
  then have "take_bit 64 (sint b - sint a) = sint b - sint a"
    by (rule take_bit_int_eq_self)
  then have "uint (b - a) = sint b - sint a"
    using diff by (simp add: uint_sint)
  then show ?thesis
    by (simp add: unat_eq_nat_uint del: nat_uint_eq)
qed

lemma symbol_matches_text:
  assumes "symbol_text s i = Some t" and "NUL \<notin> set t"
  shows "symbol_matches s str i = Some (starts_with str t)"
proof -
  from assms(1) obtain start stop where
    offs: "data_at (string_offsets s) i = Some start" "data_at (string_offsets s) (i + 1) = Some stop"
    and ord: "0 \<le> sint start" "sint start \<le> sint stop" "sint stop \<le> int (length (characters s))"
    and t: "t = take (nat (sint stop - sint start)) (drop (nat (sint start)) (characters s))"
    by (auto simp add: symbol_text_def split: option.splits if_splits)
  let ?mem = "drop (nat (sint start)) (characters s)"
  let ?n = "nat (sint stop - sint start)"
  have mem: "chars_from s start = Some ?mem"
    using ord by (simp add: chars_from_def)
  have n: "unat (stop - start) = ?n"
    using ord(1,2) by (rule unat_diff_of_ordered)
  have "?n \<le> length ?mem"
    using ord by simp
  moreover have "NUL \<notin> set (take ?n ?mem)"
    using assms(2) t by simp
  ultimately have "strncmp_eq str ?mem ?n = Some (starts_with str (take ?n ?mem))"
    by (rule strncmp_eq_starts_with)
  then show ?thesis
    using offs mem n t by (simp add: symbol_matches_def)
qed

lemma find_enum_loop_first:
  assumes "argument3 s = Some a3"
    and "\<forall>j. i \<le> j \<and> j < sint a3 \<longrightarrow> (\<exists>t. symbol_text s j = Some t \<and> NUL \<notin> set t)"
  shows "find_enum_loop s str base i =
     Some (first_offset base (filter (\<lambda>j. starts_with str (the (symbol_text s j))) [i..sint a3 - 1]))"
  using assms
proof (induction s str base i rule: find_enum_loop.induct)
  case (1 s str base i)
  show ?case
  proof (cases "i < sint a3")
    case False
    then show ?thesis
      using "1.prems"(1) by (subst find_enum_loop.simps) (simp add: first_offset_def)
  next
    case True
    then obtain t where t: "symbol_text s i = Some t" "NUL \<notin> set t"
      using "1.prems"(2) by force
    have test: "symbol_matches s str i = Some (starts_with str t)"
      using t by (rule symbol_matches_text)
    have range: "[i..sint a3 - 1] = i # [i + 1..sint a3 - 1]"
      using True by (simp add: upto_rec1)
    show ?thesis
    proof (cases "starts_with str t")
      case True
      then show ?thesis
        using "1.prems"(1) \<open>i < sint a3\<close> test t range
        by (subst find_enum_loop.simps) (simp add: first_offset_def)
    next
      case False
      have rest: "\<forall>j. i + 1 \<le> j \<and> j < sint a3 \<longrightarrow> (\<exists>t. symbol_text s j = Some t \<and> NUL \<notin> set t)"
        using "1.prems"(2) by simp
      have no: "starts_with str t = False"
        using False by simp
      have "find_enum_loop s str base (i + 1) =
          Some (first_offset base
            (filter (\<lambda>j. starts_with str (the (symbol_text s j))) [i + 1..sint a3 - 1]))"
        using "1.IH" [OF "1.prems"(1) \<open>i < sint a3\<close> test no "1.prems"(1) rest] .
      then show ?thesis
        using "1.prems"(1) \<open>i < sint a3\<close> test t range False
        by (subst find_enum_loop.simps) simp
    qed
  qed
qed


lemma find_key_loop_first:
  assumes "argument1 s = Some a1"
    and "\<forall>j. i \<le> j \<and> j \<le> sint (current_instruction s) + sint a1 \<longrightarrow>
           (\<exists>t target. entry_text s j = Some t \<and> NUL \<notin> set t \<and> entry_target s j = Some target)"
  shows "find_key_loop s str i =
     Some (first_target s (filter (\<lambda>j. starts_with str (the (entry_text s j)))
                             [i..sint (current_instruction s) + sint a1]))"
  using assms
proof (induction s str i rule: find_key_loop.induct)
  case (1 s str i)
  let ?last = "sint (current_instruction s) + sint a1"
  show ?case
  proof (cases "i \<le> ?last")
    case False
    then show ?thesis
      using "1.prems"(1) by (subst find_key_loop.simps) (simp add: first_target_def)
  next
    case True
    then obtain t target where
      t: "entry_text s i = Some t" "NUL \<notin> set t" and target: "entry_target s i = Some target"
      using "1.prems"(2) by force
    from t(1) obtain stringi where
      entry: "data_at (instructions s) (i * 4 + 1) = Some stringi"
      and named: "symbol_text s (sint stringi) = Some t"
      by (auto simp add: entry_text_def split: option.splits)
    have test: "symbol_matches s str (sint stringi) = Some (starts_with str t)"
      using named t(2) by (rule symbol_matches_text)
    have range: "[i..?last] = i # [i + 1..?last]"
      using True by (simp add: upto_rec1)
    show ?thesis
    proof (cases "starts_with str t")
      case True
      then show ?thesis
        using "1.prems"(1) \<open>i \<le> ?last\<close> entry test t target range
        by (subst find_key_loop.simps) (simp add: first_target_def entry_target_def)
    next
      case False
      have no: "starts_with str t = False"
        using False by simp
      have rest: "\<forall>j. i + 1 \<le> j \<and> j \<le> ?last \<longrightarrow>
          (\<exists>t target. entry_text s j = Some t \<and> NUL \<notin> set t \<and> entry_target s j = Some target)"
        using "1.prems"(2) by simp
      have "find_key_loop s str (i + 1) =
          Some (first_target s (filter (\<lambda>j. starts_with str (the (entry_text s j))) [i + 1..?last]))"
        using "1.IH" [OF "1.prems"(1) \<open>i \<le> ?last\<close> entry test no "1.prems"(1) rest] .
      then show ?thesis
        using "1.prems"(1) \<open>i \<le> ?last\<close> entry test t range False
        by (subst find_key_loop.simps) simp
    qed
  qed
qed

lemma filter_upto_first:
  assumes "a \<le> k" and "k \<le> b" and "P k" and "\<forall>j. a \<le> j \<and> j < k \<longrightarrow> \<not> P j"
  shows "filter P [a..b] = k # filter P [k + 1..b]"
proof -
  have "[a..b] = [a..k - 1] @ k # [k + 1..b]"
    using assms(1,2) by (rule upto_split3)
  moreover have "filter P [a..k - 1] = []"
    using assms(4) by (auto simp add: filter_empty_conv)
  ultimately show ?thesis
    using assms(3) by simp
qed

lemma filter_upto_none:
  assumes "\<forall>j. a \<le> j \<and> j \<le> b \<longrightarrow> \<not> P j"
  shows "filter P [a..b] = []"
  using assms by (auto simp add: filter_empty_conv)

subsection \<open>Call stack\<close>

lemma push_stack_Some:
  assumes "0 \<le> sint (current_stack_depth s)"
    and "sint (current_stack_depth s) < int (length (instruction_stack s))"
  shows "push_stack t s =
           Some (s\<lparr>instruction_stack :=
                      (instruction_stack s)[nat (sint (current_stack_depth s)) := current_instruction s],
                    current_stack_depth := current_stack_depth s + 1,
                    current_instruction := t\<rparr>)"
  using assms by (simp add: push_stack_def Let_def)

text \<open>
  Claim C3. In a state of the interpreter (one that satisfies the invariant of the call
  stack) whose stack depth is strictly below the capacity of the stack,
  \<open>push_stack t\<close> is defined, adds exactly one to the depth and sets the current
  position to \<open>t\<close>; \<open>pop_stack\<close> right after it is defined, subtracts exactly one from the
  depth, and restores both the current position and the depth to their values before
  the push.
\<close>

theorem push_pop_roundtrip:
  assumes "call_stack_invariant s"
    and "sint (current_stack_depth s) < int (length (instruction_stack s))"
  shows "\<exists>s1 s2. push_stack t s = Some s1 \<and> pop_stack s1 = Some s2
           \<and> current_stack_depth s1 = current_stack_depth s + 1
           \<and> current_instruction s1 = t
           \<and> current_stack_depth s2 = current_stack_depth s1 - 1
           \<and> current_instruction s2 = current_instruction s
           \<and> current_stack_depth s2 = current_stack_depth s"
proof -
  let ?d = "sint (current_stack_depth s)"
  let ?s1 = "s\<lparr>instruction_stack := (instruction_stack s)[nat ?d := current_instruction s],
                current_stack_depth := current_stack_depth s + 1,
                current_instruction := t\<rparr>"
  have lower: "0 \<le> sint (current_stack_depth s)"
    using assms(1) by (simp add: call_stack_invariant_def)
  have push: "push_stack t s = Some ?s1"
    using lower assms(2) by (rule push_stack_Some)
  have depth_back: "current_stack_depth ?s1 - 1 = current_stack_depth s"
    by simp
  have slot: "data_at (instruction_stack ?s1) ?d = Some (current_instruction s)"
    using lower assms(2) by (simp add: data_at_def)
  let ?s2 = "?s1\<lparr>current_stack_depth := current_stack_depth s,
                  current_instruction := current_instruction s\<rparr>"
  have pop: "pop_stack ?s1 = Some ?s2"
    unfolding pop_stack_def Let_def depth_back using slot by simp
  show ?thesis
    by (rule exI [of _ ?s1], rule exI [of _ ?s2]) (simp add: push pop)
qed

theorem push_pop_roundtrip_witness:
  "call_stack_invariant demo
   \<and> sint (current_stack_depth demo) < int (length (instruction_stack demo))
   \<and> (\<exists>s1 s2. push_stack 9 demo = Some s1 \<and> pop_stack s1 = Some s2
           \<and> current_stack_depth s1 = current_stack_depth demo + 1
           \<and> current_instruction s1 = 9
           \<and> current_stack_depth s2 = current_stack_depth s1 - 1
           \<and> current_instruction s2 = current_instruction demo
           \<and> current_stack_depth s2 = current_stack_depth demo)"
proof -
  have lower: "call_stack_invariant demo"
    by (simp add: call_stack_invariant_def demo_def)
  have upper: "sint (current_stack_depth demo) < int (length (instruction_stack demo))"
    by (simp add: demo_def)
  from push_pop_roundtrip [OF lower upper, of 9] lower upper show ?thesis
    by blast
qed

subsection \<open>Offset writes\<close>

text \<open>
  Claim C4. When the int64 buffer with index \<open>idx\<close> holds \<open>earlier @ [v]\<close>, that is, it is
  not empty and ends in \<open>v\<close>, \<open>write_add_int64 idx x\<close> is defined and the buffer holds
  \<open>earlier @ [v, v + x]\<close> afterwards: one element was appended, it equals \<open>v + x\<close>, and all
  earlier elements are as before; nothing else in the state changes. The sum is the sum
  of \<open>int64_t\<close>; it is the sum of the integers whenever that is a 64-bit signed value.
\<close>

theorem write_add_int64_appends:
  assumes "vec_at (buffers_int64 s) idx = Some (earlier @ [v])"
  shows "\<exists>s'. write_add_int64 idx x s = Some s'
           \<and> vec_at (buffers_int64 s') idx = Some (earlier @ [v, v + x])
           \<and> s' = s\<lparr>buffers_int64 := (buffers_int64 s)[unat idx := earlier @ [v, v + x]]\<rparr>
           \<and> (- (2 ^ 63) \<le> sint v + sint x \<and> sint v + sint x < 2 ^ 63
                \<longrightarrow> sint (v + x) = sint v + sint x)"
proof -
  have last: "gb_last (earlier @ [v]) = Some v"
    by (simp add: gb_last_def)
  have run: "write_add_int64 idx x s =
      Some (s\<lparr>buffers_int64 := (buffers_int64 s)[unat idx := earlier @ [v, v + x]]\<rparr>)"
    using assms last by (simp add: write_add_int64_def gb_append_def)
  have bound: "vec_at ((buffers_int64 s)[unat idx := earlier @ [v, v + x]]) idx
      = Some (earlier @ [v, v + x])"
    using assms by (rule vec_at_update_same)
  show ?thesis
    using run bound sint_add_no_overflow [of v x] by simp
qed

theorem write_add_int64_appends_witness:
  "vec_at (buffers_int64 demo) 0 = Some ([0] @ [3])
   \<and> (\<exists>s'. write_add_int64 0 4 demo = Some s'
           \<and> vec_at (buffers_int64 s') 0 = Some ([0] @ [3, 3 + 4])
           \<and> s' = demo\<lparr>buffers_int64 := (buffers_int64 demo)[unat (0 :: int64) := [0] @ [3, 3 + 4]]\<rparr>
           \<and> sint (3 + 4 :: int64) = sint (3 :: int64) + sint (4 :: int64))
   \<and> - (2 ^ 63) \<le> sint (3 :: int64) + sint (4 :: int64)
   \<and> sint (3 :: int64) + sint (4 :: int64) < 2 ^ 63"
proof -
  have bound: "vec_at (buffers_int64 demo) 0 = Some ([0] @ [3])"
    by (simp add: demo_def vec_at_def)
  from write_add_int64_appends [OF bound, of 4] bound show ?thesis
    by simp
qed

subsection \<open>Element counts\<close>

text \<open>
  Claim C5. Output position \<open>i\<close> is bound to the buffer whose index \<open>output_which_\<close>
  records for \<open>i\<close>, in the store of its declared kind. For the kinds float64 and int64,
  \<open>output_num_items i\<close> is the byte size of that buffer, as an \<open>int64_t\<close>, divided by 8; for
  the kinds int8 and uint8 it is the byte size itself. Read as integers, for every byte
  size that is a positive \<open>int64_t\<close> (below \<open>2 ^ 63\<close>), these are the byte size divided by
  8 and the byte size.
\<close>

theorem output_num_items_by_kind:
  "(vec_at (output_dtypes s) i = Some dtype_float64
      \<and> vec_at (output_which s) i = Some w \<and> vec_at (buffers_float64 s) w = Some bf
      \<longrightarrow> output_num_items i s = Some (int64_div (nbytes_int64 8 bf) 8)
          \<and> (gb_nbytes 8 bf < 2 ^ 63
               \<longrightarrow> sint (int64_div (nbytes_int64 8 bf) 8) = int (gb_nbytes 8 bf) div 8))
   \<and> (vec_at (output_dtypes s) i = Some dtype_int64
      \<and> vec_at (output_which s) i = Some w \<and> vec_at (buffers_int64 s) w = Some bi
      \<longrightarrow> output_num_items i s = Some (int64_div (nbytes_int64 8 bi) 8)
          \<and> (gb_nbytes 8 bi < 2 ^ 63
               \<longrightarrow> sint (int64_div (nbytes_int64 8 bi) 8) = int (gb_nbytes 8 bi) div 8))
   \<and> (vec_at (output_dtypes s) i = Some dtype_int8
      \<and> vec_at (output_which s) i = Some w \<and> vec_at (buffers_uint8 s) w = Some b
      \<longrightarrow> output_num_items i s = Some (nbytes_int64 1 b)
          \<and> (gb_nbytes 1 b < 2 ^ 63 \<longrightarrow> sint (nbytes_int64 1 b) = int (gb_nbytes 1 b)))
   \<and> (vec_at (output_dtypes s) i = Some dtype_uint8
      \<and> vec_at (output_which s) i = Some w \<and> vec_at (buffers_uint8 s) w = Some b
      \<longrightarrow> output_num_items i s = Some (nbytes_int64 1 b)
          \<and> (gb_nbytes 1 b < 2 ^ 63 \<longrightarrow> sint (nbytes_int64 1 b) = int (gb_nbytes 1 b)))"
proof -
  have eighth: "sint (int64_div (nbytes_int64 8 c) 8) = int (gb_nbytes 8 c) div 8"
    if "gb_nbytes 8 c < 2 ^ 63" for c :: "64 word list"
    using that by (simp add: nbytes_int64_def sint_int64_div_8)
  have whole: "sint (nbytes_int64 1 b) = int (gb_nbytes 1 b)" if "gb_nbytes 1 b < 2 ^ 63"
    using that by (simp add: nbytes_int64_def sint_word_of_nat_64)
  have float64: "output_num_items i s = Some (int64_div (nbytes_int64 8 bf) 8)"
    if "vec_at (output_dtypes s) i = Some dtype_float64"
      and "vec_at (output_which s) i = Some w" and "vec_at (buffers_float64 s) w = Some bf"
    using that by (simp add: output_num_items_def bound_buffer_def)
  have int64: "output_num_items i s = Some (int64_div (nbytes_int64 8 bi) 8)"
    if "vec_at (output_dtypes s) i = Some dtype_int64"
      and "vec_at (output_which s) i = Some w" and "vec_at (buffers_int64 s) w = Some bi"
    using that by (simp add: output_num_items_def bound_buffer_def)
  have bytes: "output_num_items i s = Some (nbytes_int64 1 b)"
    if "vec_at (output_dtypes s) i = Some dtype_int8 \<or> vec_at (output_dtypes s) i = Some dtype_uint8"
      and "vec_at (output_which s) i = Some w" and "vec_at (buffers_uint8 s) w = Some b"
    using that by (auto simp add: output_num_items_def bound_buffer_def)
  from eighth [of bf] eighth [of bi] whole float64 int64 bytes show ?thesis
    by blast
qed

theorem output_num_items_by_kind_witness:
  "vec_at (output_dtypes columns) 3 = Some dtype_float64
   \<and> vec_at (output_which columns) 3 = Some 1
   \<and> vec_at (buffers_float64 columns) 1 = Some [4612811918334230528, 4616471093031469056]
   \<and> gb_nbytes 8 [4612811918334230528, 4616471093031469056 :: float64] = 16
   \<and> output_num_items 3 columns = Some 2
   \<and> vec_at (output_dtypes columns) 2 = Some dtype_int64
   \<and> vec_at (output_which columns) 2 = Some 1
   \<and> vec_at (buffers_int64 columns) 1 = Some [0, 2, 4]
   \<and> gb_nbytes 8 [0, 2, 4 :: int64] = 24
   \<and> output_num_items 2 columns = Some 3
   \<and> vec_at (output_dtypes columns) 0 = Some dtype_int8
   \<and> vec_at (output_which columns) 0 = Some 1
   \<and> vec_at (buffers_uint8 columns) 1 = Some [7, 8, 9, 10]
   \<and> gb_nbytes 1 [7, 8, 9, 10 :: uint8] = 4
   \<and> output_num_items 0 columns = Some 4
   \<and> vec_at (output_dtypes columns) 1 = Some dtype_uint8
   \<and> vec_at (output_which columns) 1 = Some 0
   \<and> vec_at (buffers_uint8 columns) 0 = Some [1, 255]
   \<and> gb_nbytes 1 [1, 255 :: uint8] = 2
   \<and> output_num_items 1 columns = Some 2"
proof -
  have kinds: "vec_at (output_dtypes columns) 3 = Some dtype_float64"
    "vec_at (output_dtypes columns) 2 = Some dtype_int64"
    "vec_at (output_dtypes columns) 0 = Some dtype_int8"
    "vec_at (output_dtypes columns) 1 = Some dtype_uint8"
    by (simp_all add: columns_def demo_def vec_at_def)
  have which: "vec_at (output_which columns) 3 = Some 1" "vec_at (output_which columns) 2 = Some 1"
    "vec_at (output_which columns) 0 = Some 1" "vec_at (output_which columns) 1 = Some 0"
    by (simp_all add: columns_def demo_def vec_at_def)
  have bufs: "vec_at (buffers_float64 columns) 1 = Some [4612811918334230528, 4616471093031469056]"
    "vec_at (buffers_int64 columns) 1 = Some [0, 2, 4]"
    "vec_at (buffers_uint8 columns) 1 = Some [7, 8, 9, 10]"
    "vec_at (buffers_uint8 columns) 0 = Some [1, 255]"
    by (simp_all add: columns_def demo_def vec_at_def)
  have sizes: "gb_nbytes 8 [4612811918334230528, 4616471093031469056 :: float64] = 16"
    "gb_nbytes 8 [0, 2, 4 :: int64] = 24" "gb_nbytes 1 [7, 8, 9, 10 :: uint8] = 4"
    "gb_nbytes 1 [1, 255 :: uint8] = 2"
    by (simp_all add: gb_nbytes_def)
  have vals: "int64_div (nbytes_int64 8 [4612811918334230528, 4616471093031469056 :: float64]) 8 = 2"
    "int64_div (nbytes_int64 8 [0, 2, 4 :: int64]) 8 = 3"
    "nbytes_int64 1 [7, 8, 9, 10 :: uint8] = 4" "nbytes_int64 1 [1, 255 :: uint8] = 2"
    by (simp_all add: int64_div_def nbytes_int64_def gb_nbytes_def signed_divide_int_def)
  note at = output_num_items_by_kind [where s = columns]
  from at [of 3 1 "[4612811918334230528, 4616471093031469056]"] kinds(1) which(1) bufs(1) vals(1)
  have float: "output_num_items 3 columns = Some 2"
    by simp
  from at [of 2 1 _ "[0, 2, 4]"] kinds(2) which(2) bufs(2) vals(2)
  have int: "output_num_items 2 columns = Some 3"
    by simp
  from at [of 0 1 _ _ "[7, 8, 9, 10]"] kinds(3) which(3) bufs(3) vals(3)
  have signed: "output_num_items 0 columns = Some 4"
    by simp
  from at [of 1 0 _ _ "[1, 255]"] kinds(4) which(4) bufs(4) vals(4)
  have unsigned: "output_num_items 1 columns = Some 2"
    by simp
  from kinds which bufs sizes float int signed unsigned show ?thesis
    by simp
qed

subsection \<open>Counters\<close>

text \<open>
  Claim C6. For a counter index \<open>i\<close> of the counter bank, whose counter holds \<open>c\<close>,
  \<open>get_and_increment i\<close> returns \<open>c\<close>, the value before the increment; a second call
  right after it returns \<open>c + 1\<close>, which is never equal to \<open>c\<close>. On a fresh counter
  (\<open>c = 0\<close>, as the interpreter is loaded), \<open>n\<close> successive calls return
  \<open>0, 1, 2, ..., n - 1\<close> in this order: the call number \<open>k\<close> (from 0) returns the
  \<open>int64_t\<close> of \<open>k\<close>, which reads as the integer \<open>k\<close> for every \<open>k\<close> below \<open>2 ^ 63\<close>.
\<close>

theorem get_and_increment_sequence:
  assumes "vec_at (counters s) i = Some c"
  shows "\<exists>s1 s2. get_and_increment i s = Some (c, s1)
           \<and> get_and_increment i s1 = Some (c + 1, s2)
           \<and> c \<noteq> c + 1
           \<and> (c = 0 \<longrightarrow>
                (\<exists>vs s'. get_and_increment_times n i s = Some (vs, s') \<and> length vs = n
                   \<and> (\<forall>k<n. vs ! k = word_of_nat k \<and> (k < 2 ^ 63 \<longrightarrow> sint (vs ! k) = int k))))"
proof -
  let ?s1 = "s\<lparr>counters := (counters s)[unat i := c + 1]\<rparr>"
  let ?s2 = "?s1\<lparr>counters := (counters ?s1)[unat i := c + 1 + 1]\<rparr>"
  have first: "get_and_increment i s = Some (c, ?s1)"
    using assms by (rule get_and_increment_Some)
  have "vec_at (counters ?s1) i = Some (c + 1)"
    using assms by (simp add: vec_at_update_same)
  then have second: "get_and_increment i ?s1 = Some (c + 1, ?s2)"
    by (rule get_and_increment_Some)
  have fresh: "\<exists>vs s'. get_and_increment_times n i s = Some (vs, s') \<and> length vs = n
      \<and> (\<forall>k<n. vs ! k = word_of_nat k \<and> (k < 2 ^ 63 \<longrightarrow> sint (vs ! k) = int k))"
    if "c = 0"
  proof -
    from get_and_increment_times_from [OF assms, of n] that obtain s' where
      "get_and_increment_times n i s = Some (map word_of_nat [0..<n], s')"
      by auto
    then show ?thesis
      by (auto simp add: sint_word_of_nat_64)
  qed
  show ?thesis
    by (rule exI [of _ ?s1], rule exI [of _ ?s2]) (use first second fresh in simp)
qed

theorem get_and_increment_sequence_witness:
  "vec_at (counters demo) 1 = Some 0
   \<and> (\<exists>s1 s2. get_and_increment 1 demo = Some (0, s1)
           \<and> get_and_increment 1 s1 = Some (1, s2))
   \<and> (\<exists>s'. get_and_increment_times 3 1 demo = Some ([0, 1, 2], s'))
   \<and> sint (2 :: int64) = 2"
proof -
  have fresh: "vec_at (counters demo) 1 = Some 0"
    by (simp add: demo_def vec_at_def)
  from get_and_increment_sequence [OF fresh, of 3] obtain s1 s2 vs s' where
    two: "get_and_increment 1 demo = Some (0, s1)" "get_and_increment 1 s1 = Some (1, s2)"
    and run: "get_and_increment_times 3 1 demo = Some (vs, s')"
    and len: "length vs = 3"
    and nth: "\<forall>k<3. vs ! k = word_of_nat k \<and> (k < 2 ^ 63 \<longrightarrow> sint (vs ! k) = int k)"
    by auto
  from nth have "vs ! 0 = 0" "vs ! Suc 0 = 1" "vs ! Suc (Suc 0) = 2"
    by (simp_all add: numeral_2_eq_2 [symmetric])
  with len have "vs = [0, 1, 2]"
    by (simp add: list_eq_iff_nth_eq less_Suc_eq numeral_3_eq_3 nth_Cons')
  with fresh two run show ?thesis
    by auto
qed

subsection \<open>Outputs of an unknown kind\<close>

text \<open>
  Claim C7. For an output position \<open>i\<close> whose recorded kind is none of int8, uint8,
  int64 and float64, \<open>output_dtype i\<close> returns the string \<open>unknown\<close>, \<open>output_num_items i\<close>
  returns \<open>-1\<close>, and \<open>output_fill i\<close> is defined and writes nothing: the caller's memory
  and the interpreter state after the call are those before it.
\<close>

theorem unknown_kind_fallback:
  assumes "vec_at (output_dtypes s) i = Some k"
    and "k \<noteq> dtype_int8" and "k \<noteq> dtype_uint8" and "k \<noteq> dtype_int64" and "k \<noteq> dtype_float64"
  shows "output_dtype i s = Some ''unknown''
       \<and> output_num_items i s = Some (- 1)
       \<and> sint (- 1 :: int64) = - 1
       \<and> output_fill i external s = Some external
       \<and> call (Output_fill i) s external = Some (Void, s, external)"
  using assms
  by (cases k) (simp_all add: output_dtype_def output_num_items_def output_fill_def)

theorem unknown_kind_fallback_witness:
  "vec_at (output_dtypes demo) 4 = Some (dtype_other 0)
   \<and> dtype_other 0 \<noteq> dtype_int8 \<and> dtype_other 0 \<noteq> dtype_uint8
   \<and> dtype_other 0 \<noteq> dtype_int64 \<and> dtype_other 0 \<noteq> dtype_float64
   \<and> output_dtype 4 demo = Some ''unknown''
   \<and> output_num_items 4 demo = Some (- 1)
   \<and> output_fill 4 [7, 7] demo = Some [7, 7]
   \<and> call (Output_fill 4) demo [7, 7] = Some (Void, demo, [7, 7])"
proof -
  have kind: "vec_at (output_dtypes demo) 4 = Some (dtype_other 0)"
    by (simp add: demo_def vec_at_def)
  from unknown_kind_fallback [OF kind, of "[7, 7]"] kind show ?thesis
    by simp
qed

subsection \<open>Signed and unsigned writes\<close>

text \<open>
  Claim C10. The state has one byte store, \<open>buffers_uint8\<close>, and one 64-bit integer
  store, \<open>buffers_int64\<close>. \<open>write_int8 i x\<close> is \<open>write_uint8 i\<close> of the byte with the bits of
  \<open>x\<close>, whose unsigned value is \<open>x mod 256\<close>; both append to buffer \<open>i\<close> of
  \<open>buffers_uint8\<close>. \<open>write_uint64 i u\<close> is \<open>write_int64 i\<close> of the \<open>int64_t\<close> with the bits of
  \<open>u\<close>, which is congruent to \<open>u\<close> modulo \<open>2 ^ 64\<close>; both append to buffer \<open>i\<close> of
  \<open>buffers_int64\<close>. An output declared int8 and an output declared uint8 that are bound
  to the same buffer index report the same count and fill the same bytes.
\<close>

theorem signed_writes_share_unsigned_store:
  "write_int8 i x s = write_uint8 i (reinterpret_uint8 x) s
   \<and> int (unat (reinterpret_uint8 x)) = sint x mod 256
   \<and> (vec_at (buffers_uint8 s) i = Some b \<longrightarrow>
        write_int8 i x s =
          Some (s\<lparr>buffers_uint8 := (buffers_uint8 s)[unat i := b @ [reinterpret_uint8 x]]\<rparr>)
        \<and> write_uint8 i y s = Some (s\<lparr>buffers_uint8 := (buffers_uint8 s)[unat i := b @ [y]]\<rparr>))
   \<and> write_uint64 i u s = write_int64 i (static_cast_int64 u) s
   \<and> sint (static_cast_int64 u) mod 2 ^ 64 = int (unat u)
   \<and> (vec_at (buffers_int64 s) i = Some c \<longrightarrow>
        write_uint64 i u s =
          Some (s\<lparr>buffers_int64 := (buffers_int64 s)[unat i := c @ [static_cast_int64 u]]\<rparr>)
        \<and> write_int64 i v s = Some (s\<lparr>buffers_int64 := (buffers_int64 s)[unat i := c @ [v]]\<rparr>))
   \<and> (vec_at (output_dtypes s) j = Some dtype_int8 \<and> vec_at (output_dtypes s) k = Some dtype_uint8
        \<and> vec_at (output_which s) j = Some w \<and> vec_at (output_which s) k = Some w \<longrightarrow>
        output_num_items j s = output_num_items k s
        \<and> output_fill j external s = output_fill k external s)"
proof -
  have bytes: "write_int8 i x s = write_uint8 i (reinterpret_uint8 x) s"
    by (simp add: write_int8_def write_uint8_def)
  have words: "write_uint64 i u s = write_int64 i (static_cast_int64 u) s"
    by (simp add: write_uint64_def write_int64_def)
  have store8: "write_uint8 i z s = Some (s\<lparr>buffers_uint8 := (buffers_uint8 s)[unat i := b @ [z]]\<rparr>)"
    if "vec_at (buffers_uint8 s) i = Some b" for z
    using that by (simp add: write_uint8_def gb_append_def)
  have store64: "write_int64 i z s = Some (s\<lparr>buffers_int64 := (buffers_int64 s)[unat i := c @ [z]]\<rparr>)"
    if "vec_at (buffers_int64 s) i = Some c" for z
    using that by (simp add: write_int64_def gb_append_def)
  have outputs: "output_num_items j s = output_num_items k s
      \<and> output_fill j external s = output_fill k external s"
    if "vec_at (output_dtypes s) j = Some dtype_int8" "vec_at (output_dtypes s) k = Some dtype_uint8"
      "vec_at (output_which s) j = Some w" "vec_at (output_which s) k = Some w"
    using that by (simp add: output_num_items_def output_fill_def bound_buffer_def)
  show ?thesis
    using bytes words store8 store64 outputs unat_reinterpret_uint8 [of x]
      sint_static_cast_int64 [of u]
    by simp
qed

theorem signed_writes_share_unsigned_store_witness:
  "write_int8 0 (- 1) demo = write_uint8 0 255 demo
   \<and> write_int8 0 (- 1) demo = Some (demo\<lparr>buffers_uint8 := [[1, 255, 255]]\<rparr>)
   \<and> sint (- 1 :: int8) = - 1
   \<and> write_uint64 0 18446744073709551615 demo = write_int64 0 (- 1) demo
   \<and> write_uint64 0 18446744073709551615 demo = Some (demo\<lparr>buffers_int64 := [[0, 3, - 1]]\<rparr>)
   \<and> unat (18446744073709551615 :: uint64) = 18446744073709551615
   \<and> vec_at (output_dtypes demo) 0 = Some dtype_int8
   \<and> vec_at (output_dtypes demo) 1 = Some dtype_uint8
   \<and> vec_at (output_which demo) 0 = Some 0 \<and> vec_at (output_which demo) 1 = Some 0
   \<and> output_num_items 0 demo = output_num_items 1 demo
   \<and> output_fill 0 [0, 0, 0] demo = output_fill 1 [0, 0, 0] demo
   \<and> output_fill 0 [0, 0, 0] demo = Some [1, 255, 0]"
proof -
  have store8: "vec_at (buffers_uint8 demo) 0 = Some [1, 255]"
    and store64: "vec_at (buffers_int64 demo) 0 = Some [0, 3]"
    and kinds: "vec_at (output_dtypes demo) 0 = Some dtype_int8"
      "vec_at (output_dtypes demo) 1 = Some dtype_uint8"
    and which: "vec_at (output_which demo) 0 = Some 0" "vec_at (output_which demo) 1 = Some 0"
    by (simp_all add: demo_def vec_at_def)
  have casts: "reinterpret_uint8 (- 1) = 255" "static_cast_int64 18446744073709551615 = - 1"
    by (simp_all add: reinterpret_uint8_def static_cast_int64_def)
  have lists: "(buffers_uint8 demo)[unat (0 :: int64) := [1, 255] @ [255]] = [[1, 255, 255]]"
    "(buffers_int64 demo)[unat (0 :: int64) := [0, 3] @ [- 1]] = [[0, 3, - 1]]"
    by (simp_all add: demo_def)
  have fill: "output_fill 0 [0, 0, 0] demo = Some [1, 255, 0]"
    by (simp add: output_fill_def bound_buffer_def demo_def vec_at_def gb_concatenate_def
        bytes_of_uint8_def)
  from signed_writes_share_unsigned_store
    [of 0 "- 1" demo "[1, 255]" 255 18446744073709551615 "[0, 3]" "- 1" 0 1 0 "[0, 0, 0]"]
    store8 store64 kinds which casts lists fill
  show ?thesis
    by simp
qed

subsection \<open>What moves the current position\<close>

text \<open>
  Claim C9. Every primitive other than \<open>step_forward\<close>, \<open>step_backward\<close>, \<open>push_stack\<close>
  and \<open>pop_stack\<close> leaves the current instruction position and the stack depth as they
  were: the accessors, the lookups \<open>find_enum\<close> and \<open>find_key\<close>, the seven write
  primitives, \<open>get_and_increment\<close>, \<open>length\<close>, \<open>add_to_length\<close> and the output queries
  \<open>num_outputs\<close>, \<open>output_name\<close>, \<open>output_dtype\<close>, \<open>output_num_items\<close> and \<open>output_fill\<close>.
\<close>

theorem position_frame:
  assumes "\<not> is_navigation p" and "call p s ext = Some (r, s', ext')"
  shows "current_instruction s' = current_instruction s
       \<and> current_stack_depth s' = current_stack_depth s"
  using assms
  by (cases p)
    (auto simp add: returning_def returning_str_def updating_def add_to_length_position
      dest: write_frame get_and_increment_frame)

theorem position_frame_witness:
  "\<not> is_navigation (Find_key ''x'')
   \<and> call (Find_key ''x'') (step_forward demo) [] = Some (Int64 5, step_forward demo, [])
   \<and> \<not> is_navigation (Write_add_int64 0 4)
   \<and> call (Write_add_int64 0 4) demo [] = Some (Void, demo\<lparr>buffers_int64 := [[0, 3, 7]]\<rparr>, [])
   \<and> current_instruction (demo\<lparr>buffers_int64 := [[0, 3, 7]]\<rparr>) = current_instruction demo
   \<and> current_stack_depth (demo\<lparr>buffers_int64 := [[0, 3, 7]]\<rparr>) = current_stack_depth demo"
proof -
  have lookup: "call (Find_key ''x'') (step_forward demo) [] = Some (Int64 5, step_forward demo, [])"
    by (simp add: returning_def find_key_def step_forward_def demo_def argument1_def data_at_def
        symbol_matches_def chars_from_def NUL_def)
  have append: "call (Write_add_int64 0 4) demo [] = Some (Void, demo\<lparr>buffers_int64 := [[0, 3, 7]]\<rparr>, [])"
    by (simp add: updating_def write_add_int64_def demo_def vec_at_def gb_last_def gb_append_def)
  have kinds: "\<not> is_navigation (Find_key ''x'')" "\<not> is_navigation (Write_add_int64 0 4)"
    by simp_all
  from position_frame [OF kinds(2) append] lookup append kinds show ?thesis
    by simp
qed

subsection \<open>The top-level length\<close>

text \<open>
  \<open>add_to_length\<close> takes an \<open>int64_t\<close> and adds it without a test of its sign, so a call
  with a negative argument decreases \<open>length()\<close>: from 0 to \<open>-1\<close> here.
\<close>

theorem add_to_length_negative_decreases:
  "sint (length_field (add_to_length (- 1) demo)) < sint (length_field demo)"
  by (simp add: add_to_length_def demo_def)

text \<open>
  Claim C8, as amended. \<open>add_to_length n\<close> adds \<open>n\<close> to the top-level length: for every
  \<open>n \<ge> 0\<close> whose sum with the length is a 64-bit signed value, \<open>length()\<close> after the call
  is the length before it plus \<open>n\<close>, hence greater than or equal to it. No other
  primitive changes the length.
\<close>

theorem length_changed_only_by_add_to_length:
  "length_field (add_to_length n s) = length_field s + n
   \<and> (0 \<le> sint n \<and> sint (length_field s) + sint n < 2 ^ 63 \<longrightarrow>
      sint (length_field (add_to_length n s)) = sint (length_field s) + sint n
      \<and> sint (length_field s) \<le> sint (length_field (add_to_length n s)))
   \<and> ((\<forall>m. p \<noteq> Add_to_length m) \<and> call p s ext = Some (r, s', ext') \<longrightarrow>
        length_field s' = length_field s)"
proof -
  have grows: "sint (length_field (add_to_length n s)) = sint (length_field s) + sint n
      \<and> sint (length_field s) \<le> sint (length_field (add_to_length n s))"
    if "0 \<le> sint n" and "sint (length_field s) + sint n < 2 ^ 63"
  proof -
    have "- (2 ^ 63) \<le> sint (length_field s)"
      using sint_ge [of "length_field s"] by simp
    with that have "- (2 ^ 63) \<le> sint (length_field s) + sint n"
      by linarith
    from sint_add_no_overflow [OF this that(2)] that(1) show ?thesis
      by (simp add: add_to_length_def)
  qed
  have others: "length_field s' = length_field s"
    if "\<forall>m. p \<noteq> Add_to_length m" and "call p s ext = Some (r, s', ext')"
    using that
    by (cases p)
      (auto simp add: returning_def returning_str_def updating_def step_length
        dest: write_frame get_and_increment_frame stack_length)
  have adds: "length_field (add_to_length n s) = length_field s + n"
    by (simp add: add_to_length_def)
  from adds grows others show ?thesis
    by blast
qed

theorem length_changed_only_by_add_to_length_witness:
  "length_field (add_to_length 2 demo) = length_field demo + 2
   \<and> 0 \<le> sint (2 :: int64) \<and> sint (length_field demo) + sint (2 :: int64) < 2 ^ 63
   \<and> sint (length_field (add_to_length 2 demo)) = sint (length_field demo) + sint (2 :: int64)
   \<and> sint (length_field demo) \<le> sint (length_field (add_to_length 2 demo))
   \<and> call (Get_and_increment 0) demo [] = Some (Int64 0, demo\<lparr>counters := [1, 0]\<rparr>, [])
   \<and> length_field (demo\<lparr>counters := [1, 0]\<rparr>) = length_field demo"
proof -
  have small: "0 \<le> sint (2 :: int64)" "sint (length_field demo) + sint (2 :: int64) < 2 ^ 63"
    by (simp_all add: demo_def)
  have other: "\<forall>m. Get_and_increment 0 \<noteq> Add_to_length m"
    by simp
  have run: "call (Get_and_increment 0) demo [] = Some (Int64 0, demo\<lparr>counters := [1, 0]\<rparr>, [])"
    by (simp add: get_and_increment_def demo_def vec_at_def)
  note main = length_changed_only_by_add_to_length
    [of 2 demo "Get_and_increment 0" "[]" "Int64 0" "demo\<lparr>counters := [1, 0]\<rparr>" "[]"]
  from main have adds: "length_field (add_to_length 2 demo) = length_field demo + 2"
    by blast
  from main small
  have grows: "sint (length_field (add_to_length 2 demo)) = sint (length_field demo) + sint (2 :: int64)"
    "sint (length_field demo) \<le> sint (length_field (add_to_length 2 demo))"
    by blast+
  from main other run have same: "length_field (demo\<lparr>counters := [1, 0]\<rparr>) = length_field demo"
    by blast
  from adds small grows run same show ?thesis
    by blast
qed

subsection \<open>Symbol resolution\<close>

text \<open>
  What \<open>find_enum\<close> computes. When the second and third arguments of the current
  instruction delimit a range of symbols of the table (none of them containing a NUL),
  \<open>find_enum str\<close> is defined and returns the offset, from the start of the range, of the
  first symbol that \<open>str\<close> starts with, and \<open>-1\<close> when \<open>str\<close> starts with none of them.
  The test of the loop compares only as many characters as the symbol has.
\<close>

proposition find_enum_first_prefix:
  assumes "argument2 s = Some a2" and "argument3 s = Some a3"
    and "\<forall>j. sint a2 \<le> j \<and> j < sint a3 \<longrightarrow> (\<exists>t. symbol_text s j = Some t \<and> NUL \<notin> set t)"
  shows "find_enum str s =
     Some (first_offset (sint a2)
             (filter (\<lambda>j. starts_with str (the (symbol_text s j))) [sint a2..sint a3 - 1]))"
  using assms(1) find_enum_loop_first [OF assms(2,3)] by (simp add: find_enum_def)

corollary find_enum_exact_text:
  assumes "argument2 s = Some a2" and "argument3 s = Some a3"
    and "\<forall>j. sint a2 \<le> j \<and> j < sint a3 \<longrightarrow> (\<exists>t. symbol_text s j = Some t \<and> NUL \<notin> set t)"
    and "sint a2 \<le> k" and "k < sint a3" and "symbol_text s k = Some str"
    and "\<forall>j. sint a2 \<le> j \<and> j < k \<longrightarrow> \<not> starts_with str (the (symbol_text s j))"
  shows "find_enum str s = Some (word_of_int (k - sint a2))"
proof -
  have "starts_with str (the (symbol_text s k))"
    using assms(6) by (simp add: starts_with_def)
  with assms(4,5,7)
  have "filter (\<lambda>j. starts_with str (the (symbol_text s j))) [sint a2..sint a3 - 1]
      = k # filter (\<lambda>j. starts_with str (the (symbol_text s j))) [k + 1..sint a3 - 1]"
    by (intro filter_upto_first) simp_all
  then show ?thesis
    using find_enum_first_prefix [OF assms(1,2,3), of str] by (simp add: first_offset_def)
qed

corollary find_enum_no_prefix:
  assumes "argument2 s = Some a2" and "argument3 s = Some a3"
    and "\<forall>j. sint a2 \<le> j \<and> j < sint a3 \<longrightarrow> (\<exists>t. symbol_text s j = Some t \<and> NUL \<notin> set t)"
    and "\<forall>j. sint a2 \<le> j \<and> j < sint a3 \<longrightarrow> \<not> starts_with str (the (symbol_text s j))"
  shows "find_enum str s = Some (- 1)"
proof -
  have "filter (\<lambda>j. starts_with str (the (symbol_text s j))) [sint a2..sint a3 - 1] = []"
    using assms(4) by (intro filter_upto_none) simp
  then show ?thesis
    using find_enum_first_prefix [OF assms(1,2,3), of str] by (simp add: first_offset_def)
qed

text \<open>
  The same for \<open>find_key\<close>: over a region of key entries it returns the target of the
  first entry whose field name \<open>str\<close> starts with, and \<open>-1\<close> when there is none.
\<close>

proposition find_key_first_prefix:
  assumes "argument1 s = Some a1"
    and "\<forall>j. sint (current_instruction s) + 1 \<le> j \<and> j \<le> sint (current_instruction s) + sint a1 \<longrightarrow>
           (\<exists>t target. entry_text s j = Some t \<and> NUL \<notin> set t \<and> entry_target s j = Some target)"
  shows "find_key str s =
     Some (first_target s (filter (\<lambda>j. starts_with str (the (entry_text s j)))
             [sint (current_instruction s) + 1..sint (current_instruction s) + sint a1]))"
  using find_key_loop_first [OF assms] by (simp add: find_key_def)

corollary find_key_exact_text:
  assumes "argument1 s = Some a1"
    and "\<forall>j. sint (current_instruction s) + 1 \<le> j \<and> j \<le> sint (current_instruction s) + sint a1 \<longrightarrow>
           (\<exists>t target. entry_text s j = Some t \<and> NUL \<notin> set t \<and> entry_target s j = Some target)"
    and "sint (current_instruction s) + 1 \<le> k" and "k \<le> sint (current_instruction s) + sint a1"
    and "entry_text s k = Some str" and "entry_target s k = Some target"
    and "\<forall>j. sint (current_instruction s) + 1 \<le> j \<and> j < k \<longrightarrow>
           \<not> starts_with str (the (entry_text s j))"
  shows "find_key str s = Some target"
proof -
  let ?first = "sint (current_instruction s) + 1"
  let ?last = "sint (current_instruction s) + sint a1"
  have "starts_with str (the (entry_text s k))"
    using assms(5) by (simp add: starts_with_def)
  with assms(3,4,7)
  have "filter (\<lambda>j. starts_with str (the (entry_text s j))) [?first..?last]
      = k # filter (\<lambda>j. starts_with str (the (entry_text s j))) [k + 1..?last]"
    by (intro filter_upto_first) simp_all
  then show ?thesis
    using find_key_first_prefix [OF assms(1,2), of str] assms(6) by (simp add: first_target_def)
qed

corollary find_key_no_prefix:
  assumes "argument1 s = Some a1"
    and "\<forall>j. sint (current_instruction s) + 1 \<le> j \<and> j \<le> sint (current_instruction s) + sint a1 \<longrightarrow>
           (\<exists>t target. entry_text s j = Some t \<and> NUL \<notin> set t \<and> entry_target s j = Some target)"
    and "\<forall>j. sint (current_instruction s) + 1 \<le> j \<and> j \<le> sint (current_instruction s) + sint a1 \<longrightarrow>
           \<not> starts_with str (the (entry_text s j))"
  shows "find_key str s = Some (- 1)"
proof -
  have "filter (\<lambda>j. starts_with str (the (entry_text s j)))
      [sint (current_instruction s) + 1..sint (current_instruction s) + sint a1] = []"
    using assms(3) by (intro filter_upto_none) simp
  then show ?thesis
    using find_key_first_prefix [OF assms(1,2), of str] by (simp add: first_target_def)
qed

text \<open>
  The hypotheses of these statements hold in the program \<open>demo\<close>, where the lookups find
  the first symbol of each region and miss a text that starts with no symbol.
\<close>

lemma demo_symbols:
  "symbol_text demo 0 = Some ''A''" "symbol_text demo 1 = Some ''AB''"
  "symbol_text demo 2 = Some ''x''" "symbol_text demo 3 = Some ''xy''"
  by (simp_all add: symbol_text_def demo_def data_at_def)

lemma find_enum_exact_text_demo:
  "find_enum ''A'' demo = Some 0 \<and> find_enum ''B'' demo = Some (- 1)"
proof -
  have args: "argument2 demo = Some 0" "argument3 demo = Some 2"
    by (simp_all add: argument2_def argument3_def demo_def data_at_def)
  have range: "j = 0 \<or> j = 1" if "sint (0 :: int64) \<le> j \<and> j < sint (2 :: int64)" for j :: int
    using that by auto
  have table: "\<forall>j. sint (0 :: int64) \<le> j \<and> j < sint (2 :: int64) \<longrightarrow>
      (\<exists>t. symbol_text demo j = Some t \<and> NUL \<notin> set t)"
  proof (intro allI impI)
    fix j :: int
    assume "sint (0 :: int64) \<le> j \<and> j < sint (2 :: int64)"
    then have "j = 0 \<or> j = 1"
      by (rule range)
    then show "\<exists>t. symbol_text demo j = Some t \<and> NUL \<notin> set t"
      by (auto simp add: demo_symbols NUL_def)
  qed
  have hit: "find_enum ''A'' demo = Some (word_of_int (0 - sint (0 :: int64)))"
    by (rule find_enum_exact_text [OF args table]) (auto simp add: demo_symbols)
  have none: "\<forall>j. sint (0 :: int64) \<le> j \<and> j < sint (2 :: int64) \<longrightarrow>
      \<not> starts_with ''B'' (the (symbol_text demo j))"
  proof (intro allI impI)
    fix j :: int
    assume "sint (0 :: int64) \<le> j \<and> j < sint (2 :: int64)"
    then have "j = 0 \<or> j = 1"
      by (rule range)
    then show "\<not> starts_with ''B'' (the (symbol_text demo j))"
      by (auto simp add: demo_symbols starts_with_def)
  qed
  have miss: "find_enum ''B'' demo = Some (- 1)"
    by (rule find_enum_no_prefix [OF args table none])
  from hit miss show ?thesis
    by simp
qed

lemma find_key_exact_text_demo:
  "find_key ''x'' (step_forward demo) = Some 5 \<and> find_key ''y'' (step_forward demo) = Some (- 1)"
proof -
  let ?s = "step_forward demo"
  have cur: "sint (current_instruction ?s) = 1"
    by (simp add: step_forward_def demo_def)
  have count: "argument1 ?s = Some 2"
    by (simp add: argument1_def step_forward_def demo_def data_at_def)
  have names: "entry_text ?s 2 = Some ''x''" "entry_text ?s 3 = Some ''xy''"
    by (simp_all add: entry_text_def symbol_text_def step_forward_def demo_def data_at_def)
  have targets: "entry_target ?s 2 = Some 5" "entry_target ?s 3 = Some 8"
    by (simp_all add: entry_target_def step_forward_def demo_def data_at_def)
  have range: "j = 2 \<or> j = 3"
    if "sint (current_instruction ?s) + 1 \<le> j \<and> j \<le> sint (current_instruction ?s) + sint (2 :: int64)"
    for j :: int
    using that unfolding cur by auto
  have region: "\<forall>j. sint (current_instruction ?s) + 1 \<le> j
        \<and> j \<le> sint (current_instruction ?s) + sint (2 :: int64) \<longrightarrow>
      (\<exists>t target. entry_text ?s j = Some t \<and> NUL \<notin> set t \<and> entry_target ?s j = Some target)"
  proof (intro allI impI)
    fix j :: int
    assume "sint (current_instruction ?s) + 1 \<le> j
        \<and> j \<le> sint (current_instruction ?s) + sint (2 :: int64)"
    then have "j = 2 \<or> j = 3"
      by (rule range)
    then show "\<exists>t target. entry_text ?s j = Some t \<and> NUL \<notin> set t \<and> entry_target ?s j = Some target"
      by (auto simp add: names targets NUL_def)
  qed
  have hit: "find_key ''x'' ?s = Some 5"
    by (rule find_key_exact_text [OF count region, of 2]) (auto simp add: cur names targets)
  have none: "\<forall>j. sint (current_instruction ?s) + 1 \<le> j
        \<and> j \<le> sint (current_instruction ?s) + sint (2 :: int64) \<longrightarrow>
      \<not> starts_with ''y'' (the (entry_text ?s j))"
  proof (intro allI impI)
    fix j :: int
    assume "sint (current_instruction ?s) + 1 \<le> j
        \<and> j \<le> sint (current_instruction ?s) + sint (2 :: int64)"
    then have "j = 2 \<or> j = 3"
      by (rule range)
    then show "\<not> starts_with ''y'' (the (entry_text ?s j))"
      by (auto simp add: names starts_with_def)
  qed
  have miss: "find_key ''y'' ?s = Some (- 1)"
    by (rule find_key_no_prefix [OF count region none])
  from hit miss show ?thesis
    by simp
qed

text \<open>
  Claim C1 says that \<open>find_enum\<close> on the exact text of a symbol of the range returns the
  offset of that symbol, and \<open>-1\<close> on a text that is no symbol of the range. The code
  differs where a symbol of the range is a proper prefix of the string. In the program
  \<open>demo\<close> the current instruction gives the range \<open>[0, 2)\<close> with the symbols \<open>A\<close> and \<open>AB\<close>:
  on \<open>AB\<close>, the text of the symbol at offset 1, \<open>find_enum\<close> returns 0, and on \<open>AC\<close>, the
  text of no symbol, it returns 0 as well.
\<close>

theorem find_enum_prefix_divergence:
  "argument2 demo = Some 0 \<and> argument3 demo = Some 2
   \<and> symbol_text demo 0 = Some ''A'' \<and> symbol_text demo 1 = Some ''AB''
   \<and> find_enum ''AB'' demo = Some 0
   \<and> find_enum ''AC'' demo = Some 0"
  by (simp add: find_enum_def demo_def argument2_def argument3_def data_at_def symbol_matches_def
      symbol_text_def chars_from_def NUL_def)

text \<open>
  Claim C2 says that \<open>find_key\<close> on the exact text of a declared field name returns the
  target declared for that field, and \<open>-1\<close> on a name that is not declared. The code
  differs where a declared name is a proper prefix of the string. At instruction 1 of
  \<open>demo\<close> the region declares \<open>x\<close> with target 5 and \<open>xy\<close> with target 8: on \<open>xy\<close>
  \<open>find_key\<close> returns 5, the target of \<open>x\<close>, and on the undeclared \<open>xz\<close> it returns 5 as
  well.
\<close>

theorem find_key_prefix_divergence:
  "current_instruction (step_forward demo) = 1
   \<and> argument1 (step_forward demo) = Some 2
   \<and> entry_text (step_forward demo) 2 = Some ''x'' \<and> entry_target (step_forward demo) 2 = Some 5
   \<and> entry_text (step_forward demo) 3 = Some ''xy'' \<and> entry_target (step_forward demo) 3 = Some 8
   \<and> find_key ''xy'' (step_forward demo) = Some 5
   \<and> find_key ''xz'' (step_forward demo) = Some 5"
  by (simp add: find_key_def step_forward_def demo_def argument1_def data_at_def symbol_matches_def
      symbol_text_def entry_text_def entry_target_def chars_from_def NUL_def)

end
